theory Spec2Isabelle
  imports Main
begin

section \<open>Surface-code diagram: state and event handlers\<close>

text \<open>
  The component \<open>SurfaceCodeDiagram\<close> of \<open>src/components/Diagrams.tsx\<close> keeps two
  arrays of numbers in React state, \<open>errors\<close> and \<open>measurementErrors\<close>. Identifiers
  are the small integers the component passes around, modelled as \<open>int\<close>; on integers
  \<open>includes\<close> and \<open>!==\<close> agree on what equal means.
\<close>

record surface_state =
  errors :: "int list"
  measurementErrors :: "int list"

text \<open>\<open>useState<number[]>([])\<close>, twice.\<close>

definition initialState :: surface_state where
  "initialState = \<lparr>errors = [], measurementErrors = []\<rparr>"

text \<open>
  The updater both toggles hand to their setter:
  \<^verbatim>\<open>prev => prev.includes(id) ? prev.filter(e => e !== id) : [...prev, id]\<close>
\<close>

definition toggleId :: "int \<Rightarrow> int list \<Rightarrow> int list" where
  "toggleId i prev = (if i \<in> set prev then filter (\<lambda>e. e \<noteq> i) prev else prev @ [i])"

definition toggleError :: "int \<Rightarrow> surface_state \<Rightarrow> surface_state" where
  "toggleError i s = s\<lparr>errors := toggleId i (errors s)\<rparr>"

definition toggleMeasurementError :: "int \<Rightarrow> surface_state \<Rightarrow> surface_state" where
  "toggleMeasurementError i s = s\<lparr>measurementErrors := toggleId i (measurementErrors s)\<rparr>"

text \<open>
  \<open>resetAll\<close> calls both setters inside one click handler; React applies the two
  updates in one render, so the model replaces both fields in one step.
\<close>

definition resetAll :: "surface_state \<Rightarrow> surface_state" where
  "resetAll s = s\<lparr>errors := [], measurementErrors := []\<rparr>"

section \<open>The incidence table and the reporting stabilizers\<close>

text \<open>
  \<open>adjacency\<close> is an object literal with keys 0 to 4; \<open>Object.entries\<close> lists
  integer-like keys in ascending order, and \<open>parseInt\<close> turns each key back into its
  number. The table is an association list in that order.
\<close>

type_synonym incidence = "(int \<times> int list) list"

definition adjacency :: incidence where
  "adjacency = [(0, [0, 1]), (1, [0, 2]), (2, [1, 3]), (3, [2, 3]), (4, [0, 1, 2, 3])]"

text \<open>The array \<open>[0, 1, 2, 3]\<close> that \<open>activeStabilizers\<close> filters.\<close>

definition stabilizerIds :: "int list" where
  "stabilizerIds = [0, 1, 2, 3]"

text \<open>
  The \<open>forEach\<close> over the entries of the table, with \<open>errorCount\<close> as the
  accumulator. The loop body is kept apart from the literal it closes over; the
  component runs it on \<open>adjacency\<close> only (\<open>activeStabilizers\<close> below), whose keys 0
  to 4 come back unchanged from \<open>Object.entries\<close> and \<open>parseInt\<close>.
\<close>

definition errorCountOf :: "incidence \<Rightarrow> int list \<Rightarrow> int \<Rightarrow> nat" where
  "errorCountOf adj errs stabId =
     fold (\<lambda>(dataId, stabs) errorCount.
             if dataId \<in> set errs \<and> stabId \<in> set stabs then errorCount + 1 else errorCount)
          adj 0"

definition activeStabilizersOf :: "incidence \<Rightarrow> int list \<Rightarrow> int list \<Rightarrow> int list" where
  "activeStabilizersOf adj errs merrs =
     filter (\<lambda>stabId.
        let errorCount = errorCountOf adj errs stabId;
            calculatedParity = (errorCount mod 2 \<noteq> 0);
            isMeasurementError = (stabId \<in> set merrs)
        in if calculatedParity then \<not> isMeasurementError else isMeasurementError)
       stabilizerIds"

definition activeStabilizers :: "surface_state \<Rightarrow> int list" where
  "activeStabilizers s = activeStabilizersOf adjacency (errors s) (measurementErrors s)"

section \<open>Reachable states of the surface-code diagram\<close>

text \<open>
  The states the component can be in: the initial one, and whatever the three handlers
  make of a reachable state, for any identifier.
\<close>

inductive reachable :: "surface_state \<Rightarrow> bool" where
  reach_init: "reachable initialState"
| reach_toggleError: "reachable s \<Longrightarrow> reachable (toggleError i s)"
| reach_toggleMeasurementError: "reachable s \<Longrightarrow> reachable (toggleMeasurementError i s)"
| reach_resetAll: "reachable s \<Longrightarrow> reachable (resetAll s)"

section \<open>The parity law in the words of the specification\<close>

text \<open>
  A site is incident to a check when the table lists the check under the site.
\<close>

definition incident :: "incidence \<Rightarrow> int \<Rightarrow> int \<Rightarrow> bool" where
  "incident adj site check =
     (case map_of adj site of None \<Rightarrow> False | Some stabs \<Rightarrow> check \<in> set stabs)"

text \<open>
  \<open>parity(check) = (number of sites with hasError = true that are incident to check)
  mod 2 == 1\<close>, and \<open>reported(check) = parity(check) XOR measurementCorrupted(check)\<close>.
\<close>

definition parity_spec :: "incidence \<Rightarrow> surface_state \<Rightarrow> int \<Rightarrow> bool" where
  "parity_spec adj s check =
     (card {site \<in> set (errors s). incident adj site check} mod 2 = 1)"

definition reported_spec :: "incidence \<Rightarrow> surface_state \<Rightarrow> int \<Rightarrow> bool" where
  "reported_spec adj s check = (parity_spec adj s check \<noteq> (check \<in> set (measurementErrors s)))"

section \<open>Decoder walkthrough: the step counter\<close>

text \<open>
  JavaScript's \<open>%\<close> takes the sign of the dividend (it truncates), unlike \<open>mod\<close> on
  \<open>int\<close>, which takes the sign of the divisor.
\<close>

definition js_rem :: "int \<Rightarrow> int \<Rightarrow> int" where
  "js_rem a b = sgn a * (\<bar>a\<bar> mod \<bar>b\<bar>)"

text \<open>\<open>useState(0)\<close>, and the updaters of \<open>nextStep\<close>, \<open>prevStep\<close> and the interval.\<close>

definition initialStep :: int where
  "initialStep = 0"

definition nextStep :: "int \<Rightarrow> int" where
  "nextStep s = js_rem (s + 1) 4"

definition prevStep :: "int \<Rightarrow> int" where
  "prevStep s = js_rem (s - 1 + 4) 4"

definition autoAdvance :: "int \<Rightarrow> int" where
  "autoAdvance s = js_rem (s + 1) 4"

inductive step_reachable :: "int \<Rightarrow> bool" where
  step_init: "step_reachable initialStep"
| step_next: "step_reachable s \<Longrightarrow> step_reachable (nextStep s)"
| step_prev: "step_reachable s \<Longrightarrow> step_reachable (prevStep s)"
| step_auto: "step_reachable s \<Longrightarrow> step_reachable (autoAdvance s)"

section \<open>Facts about the toggle updater\<close>

lemma set_toggleId:
  "set (toggleId i prev) = (if i \<in> set prev then set prev - {i} else insert i (set prev))"
  by (auto simp: toggleId_def)

lemma set_toggleId_twice: "set (toggleId i (toggleId i prev)) = set prev"
  by (auto simp: set_toggleId)

lemma distinct_toggleId: "distinct prev \<Longrightarrow> distinct (toggleId i prev)"
  by (simp add: toggleId_def)

lemma toggleId_twice_absent: "i \<notin> set prev \<Longrightarrow> toggleId i (toggleId i prev) = prev"
  by (auto simp: toggleId_def filter_id_conv)

text \<open>
  When the identifier is present, the second toggle appends it again, so it moves to the
  end of the array; no read of the component depends on the position.
\<close>

lemma toggleId_twice_present:
  "i \<in> set prev \<Longrightarrow> toggleId i (toggleId i prev) = filter (\<lambda>e. e \<noteq> i) prev @ [i]"
  by (simp add: toggleId_def)

lemma toggleId_twice_moves_to_end: "toggleId 1 (toggleId 1 [1, 2]) = [2, 1]"
  by (simp add: toggleId_def)

section \<open>Facts about the counting loop\<close>

lemma fold_count_length:
  "fold (\<lambda>(dataId, stabs) errorCount. if P dataId stabs then errorCount + 1 else errorCount) adj k
     = k + length (filter (\<lambda>(dataId, stabs). P dataId stabs) adj)"
  by (induction adj arbitrary: k) (auto split: prod.splits)

lemma errorCountOf_length:
  "errorCountOf adj errs stabId
     = length (filter (\<lambda>(dataId, stabs). dataId \<in> set errs \<and> stabId \<in> set stabs) adj)"
  unfolding errorCountOf_def
  using fold_count_length [of "\<lambda>dataId stabs. dataId \<in> set errs \<and> stabId \<in> set stabs" adj 0]
  by simp

lemma errorCountOf_set_cong:
  "set errs \<inter> fst ` set adj = set errs' \<inter> fst ` set adj
     \<Longrightarrow> errorCountOf adj errs stabId = errorCountOf adj errs' stabId"
proof -
  assume eq: "set errs \<inter> fst ` set adj = set errs' \<inter> fst ` set adj"
  have "filter (\<lambda>(dataId, stabs). dataId \<in> set errs \<and> stabId \<in> set stabs) adj
      = filter (\<lambda>(dataId, stabs). dataId \<in> set errs' \<and> stabId \<in> set stabs) adj"
  proof (rule filter_cong [OF refl])
    fix e assume e: "e \<in> set adj"
    then have "fst e \<in> fst ` set adj" by (rule imageI)
    with eq have "(fst e \<in> set errs) = (fst e \<in> set errs')" by blast
    then show "(case e of (dataId, stabs) \<Rightarrow> dataId \<in> set errs \<and> stabId \<in> set stabs)
             = (case e of (dataId, stabs) \<Rightarrow> dataId \<in> set errs' \<and> stabId \<in> set stabs)"
      by (cases e) simp
  qed
  then show ?thesis by (simp add: errorCountOf_length)
qed

text \<open>
  With unique keys, as the keys of an object are, the loop counts the faulted sites
  incident to the check.
\<close>

lemma errorCountOf_card:
  assumes "distinct (map fst adj)"
  shows "errorCountOf adj errs stabId = card {site \<in> set errs. incident adj site stabId}"
proof -
  let ?F = "filter (\<lambda>(dataId, stabs). dataId \<in> set errs \<and> stabId \<in> set stabs) adj"
  have d: "distinct (map fst ?F)"
    using assms by (rule distinct_map_filter)
  have "set (map fst ?F) = {site \<in> set errs. incident adj site stabId}"
  proof (rule set_eqI)
    fix site
    have "site \<in> set (map fst ?F)
          \<longleftrightarrow> site \<in> set errs \<and> (\<exists>stabs. (site, stabs) \<in> set adj \<and> stabId \<in> set stabs)"
      by force
    also have "\<dots> \<longleftrightarrow> site \<in> set errs \<and> (\<exists>stabs. map_of adj site = Some stabs \<and> stabId \<in> set stabs)"
      using assms by simp
    also have "\<dots> \<longleftrightarrow> site \<in> {site \<in> set errs. incident adj site stabId}"
      by (auto simp: incident_def split: option.splits)
    finally show "site \<in> set (map fst ?F) \<longleftrightarrow> site \<in> {site \<in> set errs. incident adj site stabId}" .
  qed
  moreover have "card (set (map fst ?F)) = length (map fst ?F)"
    using d by (rule distinct_card)
  ultimately have "card {site \<in> set errs. incident adj site stabId} = length ?F"
    by simp
  then show ?thesis by (simp add: errorCountOf_length)
qed

lemma distinct_keys_adjacency: "distinct (map fst adjacency)"
  by (simp add: adjacency_def)

lemma in_activeStabilizersOf:
  "check \<in> set (activeStabilizersOf adj errs merrs)
     \<longleftrightarrow> check \<in> set stabilizerIds \<and> ((errorCountOf adj errs check mod 2 = 1) \<noteq> (check \<in> set merrs))"
  by (auto simp: activeStabilizersOf_def Let_def)

lemma activeStabilizersOf_set_cong:
  "set errs \<inter> fst ` set adj = set errs' \<inter> fst ` set adj
     \<Longrightarrow> set merrs \<inter> set stabilizerIds = set merrs' \<inter> set stabilizerIds
     \<Longrightarrow> activeStabilizersOf adj errs merrs = activeStabilizersOf adj errs' merrs'"
proof -
  assume e: "set errs \<inter> fst ` set adj = set errs' \<inter> fst ` set adj"
    and m: "set merrs \<inter> set stabilizerIds = set merrs' \<inter> set stabilizerIds"
  have c: "errorCountOf adj errs stabId = errorCountOf adj errs' stabId" for stabId
    using e by (rule errorCountOf_set_cong)
  show ?thesis
    unfolding activeStabilizersOf_def
  proof (rule filter_cong [OF refl])
    fix stabId assume "stabId \<in> set stabilizerIds"
    with m have "(stabId \<in> set merrs) = (stabId \<in> set merrs')" by blast
    then show "(let errorCount = errorCountOf adj errs stabId;
                    calculatedParity = (errorCount mod 2 \<noteq> 0);
                    isMeasurementError = (stabId \<in> set merrs)
                in if calculatedParity then \<not> isMeasurementError else isMeasurementError)
             = (let errorCount = errorCountOf adj errs' stabId;
                    calculatedParity = (errorCount mod 2 \<noteq> 0);
                    isMeasurementError = (stabId \<in> set merrs')
                in if calculatedParity then \<not> isMeasurementError else isMeasurementError)"
      by (simp add: Let_def c)
  qed
qed

lemma activeStabilizersOf_no_faults:
  "activeStabilizersOf adj [] merrs = filter (\<lambda>stabId. stabId \<in> set merrs) stabilizerIds"
  by (simp add: activeStabilizersOf_def errorCountOf_length)

lemma filter_eq_singleton: "distinct xs \<Longrightarrow> c \<in> set xs \<Longrightarrow> filter (\<lambda>x. x = c) xs = [c]"
  by (induction xs) (auto simp: filter_empty_conv)

lemma distinct_stabilizerIds: "distinct stabilizerIds"
  by (simp add: stabilizerIds_def)

text \<open>
  Every site of the component's table sits under two or four checks, never under one.
\<close>

lemma adjacency_no_single_check: "map_of adjacency site = Some stabs \<Longrightarrow> card (set stabs) \<noteq> 1"
  by (auto simp: adjacency_def split: if_splits)

lemma adjacency_never_one_check: "{c. incident adjacency site c} \<noteq> {check}"
proof
  assume "{c. incident adjacency site c} = {check}"
  then have one: "incident adjacency site c \<longleftrightarrow> c = check" for c
    by blast
  then have "incident adjacency site check"
    by simp
  then have "site = 0 \<or> site = 1 \<or> site = 2 \<or> site = 3 \<or> site = 4"
    by (auto simp: incident_def adjacency_def split: if_splits)
  then have "(incident adjacency site 0 \<and> incident adjacency site 1)
           \<or> (incident adjacency site 0 \<and> incident adjacency site 2)
           \<or> (incident adjacency site 1 \<and> incident adjacency site 3)
           \<or> (incident adjacency site 2 \<and> incident adjacency site 3)"
    by (auto simp: incident_def adjacency_def)
  then show False
    unfolding one by auto
qed

text \<open>
  A filter that exactly one stabilizer passes returns that stabilizer alone.
\<close>

lemma filter_unique_stabilizer:
  "{c. P c} = {check} \<Longrightarrow> check \<in> set stabilizerIds \<Longrightarrow> filter P stabilizerIds = [check]"
proof -
  assume u: "{c. P c} = {check}" and m: "check \<in> set stabilizerIds"
  from u have "P = (\<lambda>c. c = check)" by auto
  with m show ?thesis
    by (simp add: filter_eq_singleton [OF distinct_stabilizerIds])
qed

section \<open>The parity law\<close>

text \<open>
  Claim C1. In every state, a check (one of the four stabilizers) is in the reporting
  list computed by \<open>activeStabilizers\<close> exactly when
  ((number of faulted sites incident to the check) mod 2 = 1) XOR (the check is
  corrupted), the number and the incidence read off the \<open>adjacency\<close> table.
\<close>

theorem activeStabilizers_parity_law:
  assumes "check \<in> set stabilizerIds"
  shows "(check \<in> set (activeStabilizers s)) = reported_spec adjacency s check"
  using assms
  by (simp add: activeStabilizers_def in_activeStabilizersOf reported_spec_def parity_spec_def
        errorCountOf_card [OF distinct_keys_adjacency])

theorem activeStabilizers_parity_law_witness:
  "(1::int) \<in> set stabilizerIds
   \<and> ((1 \<in> set (activeStabilizers \<lparr>errors = [0, 4], measurementErrors = [1]\<rparr>))
        = reported_spec adjacency \<lparr>errors = [0, 4], measurementErrors = [1]\<rparr> 1)
   \<and> activeStabilizers \<lparr>errors = [0, 4], measurementErrors = [1]\<rparr> = [1, 2, 3]"
proof -
  have h: "(1::int) \<in> set stabilizerIds"
    by (simp add: stabilizerIds_def)
  have "activeStabilizers \<lparr>errors = [0, 4], measurementErrors = [1]\<rparr> = [1, 2, 3]"
    by (simp add: activeStabilizers_def activeStabilizersOf_def errorCountOf_def adjacency_def
          stabilizerIds_def)
  with h activeStabilizers_parity_law [OF h, of "\<lparr>errors = [0, 4], measurementErrors = [1]\<rparr>"]
  show ?thesis by blast
qed

section \<open>Reset\<close>

text \<open>
  Claim C2. In every state, and so in every reachable one, \<open>resetAll\<close> gives a state
  whose site-fault list is empty, whose check-corruption list is empty, and in which
  \<open>activeStabilizers\<close> is empty.
\<close>

theorem resetAll_clears:
  "errors (resetAll s) = [] \<and> measurementErrors (resetAll s) = []
   \<and> activeStabilizers (resetAll s) = []"
  by (simp add: resetAll_def activeStabilizers_def activeStabilizersOf_no_faults)

section \<open>Toggling twice\<close>

text \<open>
  Claim C3. In every state and for every site identifier, two calls of \<open>toggleError\<close>
  in a row give back the state before the first call: the same set of faulted sites,
  the same check corruptions and the same reporting checks.
\<close>

theorem toggleError_twice:
  "set (errors (toggleError i (toggleError i s))) = set (errors s)
   \<and> measurementErrors (toggleError i (toggleError i s)) = measurementErrors s
   \<and> activeStabilizers (toggleError i (toggleError i s)) = activeStabilizers s"
proof -
  have e: "set (errors (toggleError i (toggleError i s))) = set (errors s)"
    by (simp add: toggleError_def set_toggleId_twice)
  have m: "measurementErrors (toggleError i (toggleError i s)) = measurementErrors s"
    by (simp add: toggleError_def)
  have "activeStabilizers (toggleError i (toggleError i s)) = activeStabilizers s"
    unfolding activeStabilizers_def m
    by (rule activeStabilizersOf_set_cong) (simp_all add: e)
  with e m show ?thesis by simp
qed

text \<open>
  Claim C4. In every state and for every check identifier, two calls of
  \<open>toggleMeasurementError\<close> in a row give back the state before the first call: the
  same set of corrupted checks, the same site faults and the same reporting checks.
\<close>

theorem toggleMeasurementError_twice:
  "set (measurementErrors (toggleMeasurementError i (toggleMeasurementError i s)))
     = set (measurementErrors s)
   \<and> errors (toggleMeasurementError i (toggleMeasurementError i s)) = errors s
   \<and> activeStabilizers (toggleMeasurementError i (toggleMeasurementError i s))
       = activeStabilizers s"
proof -
  have m: "set (measurementErrors (toggleMeasurementError i (toggleMeasurementError i s)))
             = set (measurementErrors s)"
    by (simp add: toggleMeasurementError_def set_toggleId_twice)
  have e: "errors (toggleMeasurementError i (toggleMeasurementError i s)) = errors s"
    by (simp add: toggleMeasurementError_def)
  have "activeStabilizers (toggleMeasurementError i (toggleMeasurementError i s))
          = activeStabilizers s"
    unfolding activeStabilizers_def e
    by (rule activeStabilizersOf_set_cong) (simp_all add: m)
  with e m show ?thesis by simp
qed

section \<open>Scenarios\<close>

text \<open>
  Claim C5. For every check C: in a state where exactly one site is faulted, that site
  is incident to C, and C is the only corrupted check, C is not among the reporting
  checks.
\<close>

theorem fault_and_corruption_cancel:
  assumes "set (errors s) = {site}"
    and "incident adjacency site check"
    and "set (measurementErrors s) = {check}"
  shows "check \<notin> set (activeStabilizers s)"
proof -
  have "{x \<in> set (errors s). incident adjacency x check} = {site}"
    using assms(1,2) by auto
  then have "errorCountOf adjacency (errors s) check = 1"
    by (simp add: errorCountOf_card [OF distinct_keys_adjacency])
  then show ?thesis
    using assms(3) by (simp add: activeStabilizers_def in_activeStabilizersOf)
qed

theorem fault_and_corruption_cancel_witness:
  "set (errors \<lparr>errors = [4], measurementErrors = [2]\<rparr>) = {4}
   \<and> incident adjacency 4 2
   \<and> set (measurementErrors \<lparr>errors = [4], measurementErrors = [2]\<rparr>) = {2}
   \<and> 2 \<notin> set (activeStabilizers \<lparr>errors = [4], measurementErrors = [2]\<rparr>)
   \<and> activeStabilizers \<lparr>errors = [4], measurementErrors = [2]\<rparr> = [0, 1, 3]"
proof -
  have h1: "set (errors \<lparr>errors = [4], measurementErrors = [2]\<rparr>) = {4}"
    by simp
  have h2: "incident adjacency 4 2"
    by (simp add: incident_def adjacency_def)
  have h3: "set (measurementErrors \<lparr>errors = [4], measurementErrors = [2]\<rparr>) = {2}"
    by simp
  have v: "activeStabilizers \<lparr>errors = [4], measurementErrors = [2]\<rparr> = [0, 1, 3]"
    by (simp add: activeStabilizers_def activeStabilizersOf_def errorCountOf_def adjacency_def
          stabilizerIds_def)
  from fault_and_corruption_cancel [OF h1 h2 h3] h1 h2 h3 v show ?thesis
    by blast
qed

text \<open>
  Claim C6. In a state with no site fault and exactly one corrupted check (one of the
  four stabilizers), \<open>activeStabilizers\<close> is that check and nothing else.
\<close>

theorem lone_corruption_reports_alone:
  assumes "errors s = []"
    and "set (measurementErrors s) = {check}"
    and "check \<in> set stabilizerIds"
  shows "activeStabilizers s = [check]"
  using assms
  by (simp add: activeStabilizers_def activeStabilizersOf_no_faults
        filter_eq_singleton [OF distinct_stabilizerIds])

theorem lone_corruption_reports_alone_witness:
  "errors \<lparr>errors = [], measurementErrors = [3]\<rparr> = []
   \<and> set (measurementErrors \<lparr>errors = [], measurementErrors = [3]\<rparr>) = {3}
   \<and> (3::int) \<in> set stabilizerIds
   \<and> activeStabilizers \<lparr>errors = [], measurementErrors = [3]\<rparr> = [3]"
proof -
  have h1: "errors \<lparr>errors = [], measurementErrors = [3]\<rparr> = []"
    by simp
  have h2: "set (measurementErrors \<lparr>errors = [], measurementErrors = [3]\<rparr>) = {3}"
    by simp
  have h3: "(3::int) \<in> set stabilizerIds"
    by (simp add: stabilizerIds_def)
  from lone_corruption_reports_alone [OF h1 h2 h3] h1 h2 h3 show ?thesis
    by blast
qed

text \<open>
  Claim C7. In a state with exactly one faulted site and no corruption, the reporting
  checks are exactly the checks incident to that site, in the order of the stabilizer
  array. So a site incident to exactly one check would make that check report and no
  other (\<open>filter_unique_stabilizer\<close>); the component's table has no such site
  (\<open>adjacency_never_one_check\<close>), each of its five sites reports two or four checks.
\<close>

theorem single_fault_reports_incident_checks:
  assumes "set (errors s) = {site}"
    and "measurementErrors s = []"
  shows "activeStabilizers s = filter (\<lambda>check. incident adjacency site check) stabilizerIds"
proof -
  have "errorCountOf adjacency (errors s) stabId mod 2 \<noteq> 0 \<longleftrightarrow> incident adjacency site stabId"
    for stabId
  proof -
    have "{x \<in> set (errors s). incident adjacency x stabId}
            = (if incident adjacency site stabId then {site} else {})"
      using assms(1) by auto
    then show ?thesis
      by (simp add: errorCountOf_card [OF distinct_keys_adjacency])
  qed
  then show ?thesis
    using assms(2) by (simp add: activeStabilizers_def activeStabilizersOf_def Let_def)
qed

theorem single_fault_reports_incident_checks_witness:
  "set (errors \<lparr>errors = [2], measurementErrors = []\<rparr>) = {2}
   \<and> measurementErrors \<lparr>errors = [2], measurementErrors = []\<rparr> = []
   \<and> filter (\<lambda>check. incident adjacency 2 check) stabilizerIds = [1, 3]
   \<and> activeStabilizers \<lparr>errors = [2], measurementErrors = []\<rparr> = [1, 3]"
proof -
  have h1: "set (errors \<lparr>errors = [2], measurementErrors = []\<rparr>) = {2}"
    by simp
  have h2: "measurementErrors \<lparr>errors = [2], measurementErrors = []\<rparr> = []"
    by simp
  have v: "filter (\<lambda>check. incident adjacency 2 check) stabilizerIds = [1, 3]"
    by (simp add: incident_def adjacency_def stabilizerIds_def)
  from single_fault_reports_incident_checks [OF h1 h2] h1 h2 v show ?thesis
    by simp
qed

section \<open>Identifiers outside the table\<close>

lemma toggleId_outside:
  "i \<notin> K \<Longrightarrow> set (toggleId i prev) \<inter> K = set prev \<inter> K"
  by (auto simp: set_toggleId)

lemma unknown_site_not_key: "map_of adjacency i = None \<Longrightarrow> i \<notin> fst ` set adjacency"
  by (simp add: map_of_eq_None_iff)

text \<open>
  Claim C8, as the code has it. The handlers do not look the identifier up anywhere:
  \<open>toggleError\<close> with an identifier that is no key of \<open>adjacency\<close> adds it to the
  fault list, and \<open>toggleMeasurementError\<close> with an identifier that is no stabilizer
  adds it to the corruption list, so the state is not left as it was.
\<close>

theorem unknown_id_toggle_changes_state:
  "map_of adjacency 7 = None
   \<and> set (errors (toggleError 7 initialState)) \<noteq> set (errors initialState)
   \<and> 9 \<notin> set stabilizerIds
   \<and> set (measurementErrors (toggleMeasurementError 9 initialState))
       \<noteq> set (measurementErrors initialState)"
  by (simp add: adjacency_def stabilizerIds_def toggleError_def toggleMeasurementError_def
        toggleId_def initialState_def)

text \<open>
  Claim C8, amended. For an identifier \<open>i\<close> that is no key of the incidence table,
  \<open>toggleError i\<close> flips the membership of \<open>i\<close> in the fault list as it does for any
  other identifier, and leaves the corruption list and the reporting checks as they
  were. For an identifier \<open>j\<close> that is none of the four stabilizers,
  \<open>toggleMeasurementError j\<close> flips the membership of \<open>j\<close> in the corruption list and
  leaves the fault list and the reporting checks as they were.
\<close>

theorem unknown_id_toggle_keeps_reporting:
  assumes "map_of adjacency i = None"
    and "j \<notin> set stabilizerIds"
  shows "set (errors (toggleError i s))
           = (if i \<in> set (errors s) then set (errors s) - {i} else insert i (set (errors s)))
       \<and> measurementErrors (toggleError i s) = measurementErrors s
       \<and> activeStabilizers (toggleError i s) = activeStabilizers s
       \<and> set (measurementErrors (toggleMeasurementError j s))
           = (if j \<in> set (measurementErrors s) then set (measurementErrors s) - {j}
              else insert j (set (measurementErrors s)))
       \<and> errors (toggleMeasurementError j s) = errors s
       \<and> activeStabilizers (toggleMeasurementError j s) = activeStabilizers s"
proof -
  have i: "i \<notin> fst ` set adjacency"
    using assms(1) by (rule unknown_site_not_key)
  have a: "set (errors (toggleError i s))
             = (if i \<in> set (errors s) then set (errors s) - {i} else insert i (set (errors s)))"
    by (simp add: toggleError_def set_toggleId)
  have b: "measurementErrors (toggleError i s) = measurementErrors s"
    by (simp add: toggleError_def)
  have c: "activeStabilizers (toggleError i s) = activeStabilizers s"
    unfolding activeStabilizers_def b
    by (rule activeStabilizersOf_set_cong) (simp_all add: toggleError_def toggleId_outside [OF i])
  have d: "set (measurementErrors (toggleMeasurementError j s))
             = (if j \<in> set (measurementErrors s) then set (measurementErrors s) - {j}
                else insert j (set (measurementErrors s)))"
    by (simp add: toggleMeasurementError_def set_toggleId)
  have e: "errors (toggleMeasurementError j s) = errors s"
    by (simp add: toggleMeasurementError_def)
  have f: "activeStabilizers (toggleMeasurementError j s) = activeStabilizers s"
    unfolding activeStabilizers_def e
    by (rule activeStabilizersOf_set_cong)
      (simp_all add: toggleMeasurementError_def toggleId_outside [OF assms(2)])
  from a b c d e f show ?thesis by blast
qed

theorem unknown_id_toggle_keeps_reporting_witness:
  "map_of adjacency 7 = None \<and> 9 \<notin> set stabilizerIds
   \<and> errors (toggleError 7 \<lparr>errors = [0], measurementErrors = [3]\<rparr>) = [0, 7]
   \<and> measurementErrors (toggleMeasurementError 9 \<lparr>errors = [0], measurementErrors = [3]\<rparr>) = [3, 9]
   \<and> activeStabilizers (toggleError 7 \<lparr>errors = [0], measurementErrors = [3]\<rparr>)
       = activeStabilizers \<lparr>errors = [0], measurementErrors = [3]\<rparr>
   \<and> activeStabilizers (toggleMeasurementError 9 \<lparr>errors = [0], measurementErrors = [3]\<rparr>)
       = activeStabilizers \<lparr>errors = [0], measurementErrors = [3]\<rparr>"
proof -
  have h1: "map_of adjacency 7 = None"
    by (simp add: adjacency_def)
  have h2: "9 \<notin> set stabilizerIds"
    by (simp add: stabilizerIds_def)
  have v1: "errors (toggleError 7 \<lparr>errors = [0], measurementErrors = [3]\<rparr>) = [0, 7]"
    by (simp add: toggleError_def toggleId_def)
  have v2: "measurementErrors (toggleMeasurementError 9 \<lparr>errors = [0], measurementErrors = [3]\<rparr>)
              = [3, 9]"
    by (simp add: toggleMeasurementError_def toggleId_def)
  from unknown_id_toggle_keeps_reporting [OF h1 h2, of "\<lparr>errors = [0], measurementErrors = [3]\<rparr>"]
    h1 h2 v1 v2 show ?thesis by blast
qed

section \<open>The step counter\<close>

lemma js_rem_nonneg: "0 \<le> a \<Longrightarrow> js_rem a 4 = a mod 4"
  by (simp add: js_rem_def sgn_if)

text \<open>On a negative dividend the two differ, so the range of the counter matters.\<close>

lemma js_rem_negative: "js_rem (- 1) 4 = - 1 \<and> (- 1) mod (4::int) = 3"
  by (simp add: js_rem_def)

lemma step_reachable_range: "step_reachable s \<Longrightarrow> 0 \<le> s \<and> s < 4"
proof (induction rule: step_reachable.induct)
  case step_init
  show ?case by (simp add: initialStep_def)
next
  case (step_next s)
  then show ?case by (simp add: nextStep_def js_rem_nonneg)
next
  case (step_prev s)
  then show ?case by (simp add: prevStep_def js_rem_nonneg)
next
  case (step_auto s)
  then show ?case by (simp add: autoAdvance_def js_rem_nonneg)
qed

text \<open>
  Claim C9. The step counter counts modulo 4: starting from step 0, every reachable
  step is one of 0, 1, 2, 3; \<open>nextStep\<close> and the timed advance take \<open>s\<close> to
  \<open>(s + 1) mod 4\<close>, and \<open>prevStep\<close> takes \<open>s\<close> to \<open>(s - 1 + 4) mod 4\<close>.
\<close>

theorem step_counter_mod4:
  assumes "step_reachable s"
  shows "s \<in> {0, 1, 2, 3}
       \<and> nextStep s = (s + 1) mod 4
       \<and> autoAdvance s = (s + 1) mod 4
       \<and> prevStep s = (s - 1 + 4) mod 4"
proof -
  have r: "0 \<le> s \<and> s < 4"
    using assms by (rule step_reachable_range)
  then have "s \<in> {0, 1, 2, 3}" by auto
  moreover have "nextStep s = (s + 1) mod 4"
    using r by (simp add: nextStep_def js_rem_nonneg)
  moreover have "autoAdvance s = (s + 1) mod 4"
    using r by (simp add: autoAdvance_def js_rem_nonneg)
  moreover have "prevStep s = (s - 1 + 4) mod 4"
    using r by (simp add: prevStep_def js_rem_nonneg)
  ultimately show ?thesis by blast
qed

theorem step_counter_mod4_witness:
  "step_reachable (prevStep initialStep) \<and> prevStep initialStep = 3
   \<and> nextStep (prevStep initialStep) = 0 \<and> autoAdvance (prevStep initialStep) = 0
   \<and> prevStep (prevStep initialStep) = 2"
proof -
  have h: "step_reachable (prevStep initialStep)"
    by (rule step_prev [OF step_init])
  have v: "prevStep initialStep = 3"
    by (simp add: prevStep_def initialStep_def js_rem_def)
  from step_counter_mod4 [OF h] h v show ?thesis
    by simp
qed

section \<open>The lists hold every identifier at most once\<close>

lemma distinct_initialState: "distinct (errors initialState) \<and> distinct (measurementErrors initialState)"
  by (simp add: initialState_def)

text \<open>
  Claim C10. In every state reachable from the initial empty state by calls of
  \<open>toggleError\<close>, \<open>toggleMeasurementError\<close> and \<open>resetAll\<close>, with any identifiers, the
  fault list and the corruption list each hold every identifier at most once.
\<close>

theorem reachable_lists_distinct:
  assumes "reachable s"
  shows "distinct (errors s) \<and> distinct (measurementErrors s)"
  using assms
proof (induction rule: reachable.induct)
  case reach_init
  show ?case by (rule distinct_initialState)
next
  case (reach_toggleError s i)
  then show ?case by (simp add: toggleError_def distinct_toggleId)
next
  case (reach_toggleMeasurementError s i)
  then show ?case by (simp add: toggleMeasurementError_def distinct_toggleId)
next
  case (reach_resetAll s)
  show ?case by (simp add: resetAll_def)
qed

theorem reachable_lists_distinct_witness:
  "reachable (toggleMeasurementError 2 (toggleError 4 (toggleError 0 initialState)))
   \<and> errors (toggleMeasurementError 2 (toggleError 4 (toggleError 0 initialState))) = [0, 4]
   \<and> measurementErrors (toggleMeasurementError 2 (toggleError 4 (toggleError 0 initialState))) = [2]
   \<and> distinct (errors (toggleMeasurementError 2 (toggleError 4 (toggleError 0 initialState))))
   \<and> distinct (measurementErrors (toggleMeasurementError 2 (toggleError 4 (toggleError 0 initialState))))"
proof -
  have h: "reachable (toggleMeasurementError 2 (toggleError 4 (toggleError 0 initialState)))"
    by (intro reach_toggleMeasurementError reach_toggleError reach_init)
  have v: "errors (toggleMeasurementError 2 (toggleError 4 (toggleError 0 initialState))) = [0, 4]
         \<and> measurementErrors (toggleMeasurementError 2 (toggleError 4 (toggleError 0 initialState))) = [2]"
    by (simp add: toggleMeasurementError_def toggleError_def toggleId_def initialState_def)
  from reachable_lists_distinct [OF h] h v show ?thesis
    by blast
qed

end
